theory Spec2Isabelle
  imports Main "HOL-Library.Multiset"
begin

section \<open>Data model of sync-manager.js\<close>

subsection \<open>Timestamps as JavaScript sees them\<close>

text \<open>
  A timestamp property (\<open>updatedAt\<close>, \<open>lastSeen\<close>, ...) is a JavaScript value. The code
  looks at such a value in two ways only: through \<open>new Date(v)\<close> and through the
  truthiness test of \<open>v || 0\<close>. Four kinds of value behave differently under the two:
  \<^item> \<open>Undefined\<close>: the property is missing (falsy, \<open>new Date(undefined)\<close> is an invalid date);
  \<^item> \<open>Null\<close>: JSON \<open>null\<close> (falsy, \<open>new Date(null)\<close> is the epoch);
  \<^item> \<open>IsoString t\<close>: a date string, as \<open>toISOString()\<close> writes it, that denotes the
    instant \<open>t\<close> milliseconds after the epoch (truthy; \<open>t\<close> is within the range of
    \<open>Date\<close>, since the string denotes it);
  \<^item> \<open>BadString\<close>: a non-empty string that is no date (truthy, invalid date).
  The time value of a \<open>Date\<close> is \<open>Some t\<close>, or \<open>None\<close> for an invalid date (NaN).
\<close>

datatype jsstamp = Undefined | Null | IsoString int | BadString

type_synonym jsdate = "int option"

fun truthy :: "jsstamp \<Rightarrow> bool" where
  "truthy Undefined = False"
| "truthy Null = False"
| "truthy (IsoString t) = True"
| "truthy BadString = True"

text \<open>\<open>new Date(v)\<close>\<close>

fun newDateOf :: "jsstamp \<Rightarrow> jsdate" where
  "newDateOf Undefined = None"
| "newDateOf Null = Some 0"
| "newDateOf (IsoString t) = Some t"
| "newDateOf BadString = None"

text \<open>\<open>new Date(v || 0)\<close>\<close>

definition newDateOr0 :: "jsstamp \<Rightarrow> jsdate" where
  "newDateOr0 v = (if truthy v then newDateOf v else Some 0)"

text \<open>\<open>a > b\<close> on two dates compares the time values; with NaN on either side it is false.\<close>

fun dateGt :: "jsdate \<Rightarrow> jsdate \<Rightarrow> bool" where
  "dateGt (Some a) (Some b) = (b < a)"
| "dateGt _ _ = False"

text \<open>\<open>a - b\<close> on two dates; \<open>None\<close> is NaN.\<close>

fun dateMinus :: "jsdate \<Rightarrow> jsdate \<Rightarrow> int option" where
  "dateMinus (Some a) (Some b) = Some (a - b)"
| "dateMinus _ _ = None"

subsection \<open>Tasks, devices, the remote document\<close>

text \<open>
  A task as \<open>addTask\<close> builds it. \<open>deleted\<close> is set by \<open>deleteTask\<close> only, so the
  property may be missing (\<open>None\<close>); a missing \<open>updatedAt\<close> is \<open>Undefined\<close>.
\<close>

record task =
  task_id :: int
  title :: string
  description :: string
  priority :: string
  category :: string
  deadline :: jsstamp
  completed :: bool
  deleted :: "bool option"
  createdAt :: jsstamp
  updatedAt :: jsstamp
  synced :: bool
  task_deviceId :: string

record device =
  device_id :: string
  device_name :: string
  lastSeen :: jsstamp
  online :: bool

text \<open>The JSON document of the remote store; \<open>tasks\<close> and \<open>devices\<close> may be missing.\<close>

record remote_doc =
  doc_tasks :: "task list option"
  doc_lastSync :: jsstamp
  doc_devices :: "device list option"
  doc_version :: string

section \<open>The merge\<close>

subsection \<open>JavaScript \<open>Map\<close>, \<open>Set\<close> and \<open>Array.prototype.sort\<close>\<close>

text \<open>
  A \<open>Map\<close> keeps its keys in the order of their first insertion; setting a key that is
  already there replaces the value and leaves the position. \<open>new Map(entries)\<close> sets the
  entries from left to right.
\<close>

fun map_set :: "'k \<Rightarrow> 'v \<Rightarrow> ('k \<times> 'v) list \<Rightarrow> ('k \<times> 'v) list" where
  "map_set k v [] = [(k, v)]"
| "map_set k v (e # m) = (if fst e = k then (k, v) # m else e # map_set k v m)"

definition newMap :: "('k \<times> 'v) list \<Rightarrow> ('k \<times> 'v) list" where
  "newMap entries = foldl (\<lambda>m e. map_set (fst e) (snd e) m) [] entries"

definition map_get :: "('k \<times> 'v) list \<Rightarrow> 'k \<Rightarrow> 'v option" where
  "map_get m k = map_of m k"

definition map_keys :: "('k \<times> 'v) list \<Rightarrow> 'k list" where
  "map_keys m = map fst m"

text \<open>\<open>new Set(xs)\<close>: the elements of \<open>xs\<close> in the order of their first occurrence.\<close>

definition set_add :: "'a \<Rightarrow> 'a list \<Rightarrow> 'a list" where
  "set_add x s = (if x \<in> set s then s else s @ [x])"

definition newSet :: "'a list \<Rightarrow> 'a list" where
  "newSet xs = foldl (\<lambda>s x. set_add x s) [] xs"

text \<open>
  \<open>xs.sort(cmp)\<close>. The comparator returns a number or NaN (\<open>None\<close>), and NaN counts as
  \<open>0\<close>. When the comparator is consistent on the elements, the language fixes the
  result: the elements in the order of the comparator, those that compare equal in the
  order they had (the sort is stable). \<open>js_sort\<close> is this stable sort, written as an
  insertion sort. When the comparator is not consistent, the language leaves the order
  to the engine; see \<open>sortByUpdatedAt\<close> below.
\<close>

definition cmpValue :: "('a \<Rightarrow> 'a \<Rightarrow> int option) \<Rightarrow> 'a \<Rightarrow> 'a \<Rightarrow> int" where
  "cmpValue cmp a b = (case cmp a b of None \<Rightarrow> 0 | Some v \<Rightarrow> v)"

fun sort_insert :: "('a \<Rightarrow> 'a \<Rightarrow> int option) \<Rightarrow> 'a \<Rightarrow> 'a list \<Rightarrow> 'a list" where
  "sort_insert cmp x [] = [x]"
| "sort_insert cmp x (y # ys) =
     (if cmpValue cmp x y \<le> 0 then x # y # ys else y # sort_insert cmp x ys)"

fun js_sort :: "('a \<Rightarrow> 'a \<Rightarrow> int option) \<Rightarrow> 'a list \<Rightarrow> 'a list" where
  "js_sort cmp [] = []"
| "js_sort cmp (x # xs) = sort_insert cmp x (js_sort cmp xs)"

subsection \<open>\<open>resolveConflict\<close> and \<open>mergeData\<close>\<close>

definition resolveConflict :: "task \<Rightarrow> task \<Rightarrow> task" where
  "resolveConflict localTask remoteTask =
     (let localTime = newDateOr0 (updatedAt localTask);
          remoteTime = newDateOr0 (updatedAt remoteTask)
      in if dateGt localTime remoteTime then localTask
         else if dateGt remoteTime localTime then remoteTask
         else localTask)"

text \<open>The comparator of the final sort: \<open>new Date(b.updatedAt) - new Date(a.updatedAt)\<close>.\<close>

definition byUpdatedAtDesc :: "task \<Rightarrow> task \<Rightarrow> int option" where
  "byUpdatedAtDesc a b = dateMinus (newDateOf (updatedAt b)) (newDateOf (updatedAt a))"

text \<open>
  \<open>mergedTasks.sort((a, b) => new Date(b.updatedAt) - new Date(a.updatedAt))\<close>. The
  comparator is consistent on a list exactly when every \<open>new Date(t.updatedAt)\<close> of the
  list is a valid date: then it orders the records by their time values, and a record
  with an invalid date makes it return NaN. So on a list of valid dates the result
  is the stable sort. On any other list the order is the engine's: \<open>engineOrder\<close> stands
  for it, and all that is taken for granted about it is that the engine returns the
  elements it was given, in some order.
\<close>

definition validDate :: "task \<Rightarrow> bool" where
  "validDate t = (newDateOf (updatedAt t) \<noteq> None)"

definition engineOrder :: "'a list \<Rightarrow> 'a list" where
  "engineOrder xs = (SOME ys. mset ys = mset xs)"

definition sortByUpdatedAt :: "task list \<Rightarrow> task list" where
  "sortByUpdatedAt ts =
     (if list_all validDate ts then js_sort byUpdatedAtDesc ts else engineOrder ts)"

text \<open>
  The body of the loop over \<open>allIds\<close>: what is pushed for one id. A task is an object, so
  \<open>!localTask\<close> holds exactly when the map has no entry. An id of \<open>allIds\<close> is a key of
  one of the two maps, so the branch that would push \<open>undefined\<close> is never taken.
\<close>

definition mergeOne :: "(int \<times> task) list \<Rightarrow> (int \<times> task) list \<Rightarrow> int \<Rightarrow> task list" where
  "mergeOne localMap remoteMap i =
     (case map_get localMap i of
        None \<Rightarrow> (case map_get remoteMap i of None \<Rightarrow> [] | Some remoteTask \<Rightarrow> [remoteTask])
      | Some localTask \<Rightarrow>
          (case map_get remoteMap i of
             None \<Rightarrow> [localTask]
           | Some remoteTask \<Rightarrow> [resolveConflict localTask remoteTask]))"

definition taskEntries :: "task list \<Rightarrow> (int \<times> task) list" where
  "taskEntries ts = map (\<lambda>t. (task_id t, t)) ts"

definition mergeData :: "task list \<Rightarrow> task list \<Rightarrow> task list" where
  "mergeData localTasks remoteTasks =
     (let localMap = newMap (taskEntries localTasks);
          remoteMap = newMap (taskEntries remoteTasks);
          allIds = newSet (map_keys localMap @ map_keys remoteMap);
          mergedTasks = concat (map (mergeOne localMap remoteMap) allIds)
      in sortByUpdatedAt mergedTasks)"

section \<open>The sync manager and its surroundings\<close>

text \<open>
  The part of the \<open>SyncManager\<close> object and of its surroundings that the sync cycle reads
  or writes: the fields of the object, the two \<open>localStorage\<close> items \<open>lastSync\<close> and
  \<open>deviceName\<close>, the \<open>tasks\<close> table of the IndexedDB database (its rows in the order of
  the primary key \<open>id\<close>), and the trace of the calls made to the presentation layer and
  to the remote store.
\<close>

datatype severity = LogInfo | LogSuccess | LogWarning | LogError

datatype sync_status = StatusOnline | StatusOffline | StatusSyncing

text \<open>The texts handed to \<open>log\<close>, by the place that logs them.\<close>

datatype message =
    AlreadySyncing
  | ManualSyncStarted
  | RemoteReadFailed
  | SaveFailed string
  | SyncFailed string
  | SyncCompleted

datatype event =
    Log message severity
  | UpdateSyncStatus sync_status
  | UpdateLastSyncDisplay
  | ShowNotification
  | GetData
  | SaveData remote_doc

record state =
  isOnline :: bool
  isSyncing :: bool
  lastSync :: jsstamp
  deviceId :: string
  autoSync :: bool
  stored_lastSync :: jsstamp
  stored_deviceName :: "string option"
  db_tasks :: "task list"
  trace :: "event list"

text \<open>
  What the surroundings answer during one cycle. \<open>githubConfig\<close> is not part of the
  file: its three methods are parameters, and each of \<open>getData\<close> and \<open>saveData\<close> may
  throw. \<open>clock n\<close> is the value, in milliseconds since the epoch, of the \<open>n\<close>-th
  \<open>new Date()\<close> that the cycle evaluates for its data, counted from \<open>0\<close>: reading 0 is
  \<open>localData.lastSync\<close> (never used again), 1 is \<open>deviceInfo.lastSeen\<close>, 2 is
  \<open>sevenDaysAgo\<close>, 3 is \<open>dataToSave.lastSync\<close> and 4 is \<open>this.lastSync\<close>.
  \<open>setDate(getDate() - 7)\<close> moves a date by seven days of the local calendar; \<open>tzShift\<close>
  is the local UTC offset now minus the one seven calendar days earlier, \<open>0\<close> unless
  the offset changed in between.
\<close>

datatype get_outcome = GetThrows string | GetNothing | GetDoc remote_doc

datatype save_outcome = SaveThrows string | SaveResult bool string

record env =
  isConfigured :: bool
  getData :: get_outcome
  saveData :: "remote_doc \<Rightarrow> save_outcome"
  clock :: "nat \<Rightarrow> int"
  tzShift :: int

definition emit :: "event \<Rightarrow> state \<Rightarrow> state" where
  "emit ev s = s\<lparr>trace := trace s @ [ev]\<rparr>"

definition log :: "message \<Rightarrow> severity \<Rightarrow> state \<Rightarrow> state" where
  "log m sev s = emit (Log m sev) s"

section \<open>The device registry\<close>

text \<open>\<open>str.substr(-n)\<close>: the last \<open>n\<close> characters, the whole string when it is shorter.\<close>

definition substr_last :: "nat \<Rightarrow> string \<Rightarrow> string" where
  "substr_last n str = drop (length str - n) str"

definition getDeviceName :: "state \<Rightarrow> string" where
  "getDeviceName s =
     (case stored_deviceName s of
        None \<Rightarrow> ''Dispositivo-'' @ substr_last 4 (deviceId s)
      | Some n \<Rightarrow> if n = [] then ''Dispositivo-'' @ substr_last 4 (deviceId s) else n)"

text \<open>\<open>xs.findIndex(p)\<close>; \<open>None\<close> is the result \<open>-1\<close>.\<close>

fun findIndex :: "('a \<Rightarrow> bool) \<Rightarrow> 'a list \<Rightarrow> nat option" where
  "findIndex p [] = None"
| "findIndex p (x # xs) =
     (if p x then Some 0 else (case findIndex p xs of None \<Rightarrow> None | Some i \<Rightarrow> Some (Suc i)))"

definition dayMs :: int where
  "dayMs = 86400000"

text \<open>
  \<open>updateDevicesList\<close> writes into the array it is given and returns a new array built by
  \<open>filter\<close>. The model returns both: first the argument array as the call leaves it, then
  the returned array. \<open>nowSeen\<close> and \<open>nowPrune\<close> are the two readings of the clock, for
  \<open>deviceInfo.lastSeen\<close> and for \<open>sevenDaysAgo\<close>.
\<close>

definition updateDevicesList ::
  "state \<Rightarrow> int \<Rightarrow> int \<Rightarrow> int \<Rightarrow> device list \<Rightarrow> device list \<times> device list" where
  "updateDevicesList s tz nowSeen nowPrune existingDevices =
     (let deviceInfo = \<lparr>device_id = deviceId s, device_name = getDeviceName s,
                         lastSeen = IsoString nowSeen, online = isOnline s\<rparr>;
          existingDevices' =
            (case findIndex (\<lambda>d. device_id d = deviceId s) existingDevices of
               Some deviceIndex \<Rightarrow> existingDevices[deviceIndex := deviceInfo]
             | None \<Rightarrow> existingDevices @ [deviceInfo]);
          sevenDaysAgo = Some (nowPrune - 7 * dayMs + tz)
      in (existingDevices',
          filter (\<lambda>d. dateGt (newDateOf (lastSeen d)) sevenDaysAgo) existingDevices'))"

section \<open>The task store\<close>

text \<open>The truthiness of \<open>task.deleted\<close>.\<close>

definition isDeleted :: "task \<Rightarrow> bool" where
  "isDeleted t = (deleted t = Some True)"

text \<open>
  \<open>getAllTasks()\<close> as the sync cycle calls it, without an argument: the filter is
  \<open>'all'\<close> and the \<open>switch\<close> takes its default branch.
\<close>

definition getAllTasks :: "task list \<Rightarrow> task list" where
  "getAllTasks table = filter (\<lambda>t. \<not> isDeleted t) table"

definition getTask :: "task list \<Rightarrow> int \<Rightarrow> task option" where
  "getTask table i = find (\<lambda>t. task_id t = i) table"

definition db_delete :: "int \<Rightarrow> task list \<Rightarrow> task list" where
  "db_delete i table = filter (\<lambda>t. task_id t \<noteq> i) table"

text \<open>\<open>db.tasks.add\<close> of a record that carries its key; the table stays in key order.\<close>

fun db_add :: "task \<Rightarrow> task list \<Rightarrow> task list" where
  "db_add t [] = [t]"
| "db_add t (x # xs) = (if task_id t < task_id x then t # x # xs else x # db_add t xs)"

text \<open>
  \<open>db.tasks.update(id, {...remoteTask, synced: true})\<close> writes every property that
  \<open>remoteTask\<close> has into the stored record; a property that \<open>remoteTask\<close> lacks keeps
  its stored value.
\<close>

definition stampOr :: "jsstamp \<Rightarrow> jsstamp \<Rightarrow> jsstamp" where
  "stampOr new old = (if new = Undefined then old else new)"

definition applyChanges :: "task \<Rightarrow> task \<Rightarrow> task" where
  "applyChanges stored remoteTask =
     remoteTask\<lparr>deadline := stampOr (deadline remoteTask) (deadline stored),
                deleted := (case deleted remoteTask of None \<Rightarrow> deleted stored | Some d \<Rightarrow> Some d),
                createdAt := stampOr (createdAt remoteTask) (createdAt stored),
                updatedAt := stampOr (updatedAt remoteTask) (updatedAt stored),
                synced := True\<rparr>"

definition db_update :: "int \<Rightarrow> task \<Rightarrow> task list \<Rightarrow> task list" where
  "db_update i remoteTask table =
     map (\<lambda>t. if task_id t = i then applyChanges t remoteTask else t) table"

definition syncTasks_step :: "task list \<Rightarrow> task \<Rightarrow> task list" where
  "syncTasks_step table remoteTask =
     (if isDeleted remoteTask then db_delete (task_id remoteTask) table
      else (case getTask table (task_id remoteTask) of
              None \<Rightarrow> db_add (remoteTask\<lparr>synced := True\<rparr>) table
            | Some localTask \<Rightarrow>
                (let localTime = newDateOr0 (updatedAt localTask);
                     remoteTime = newDateOr0 (updatedAt remoteTask)
                 in if dateGt remoteTime localTime
                    then db_update (task_id remoteTask) remoteTask table
                    else table)))"

definition syncTasks :: "task list \<Rightarrow> task list \<Rightarrow> task list" where
  "syncTasks remoteTasks table =
     map (\<lambda>t. t\<lparr>synced := True\<rparr>) (foldl syncTasks_step table remoteTasks)"

section \<open>The sync cycle\<close>

text \<open>
  The cycle is modelled as one step: what other handlers do to the state while the cycle
  waits for the database or the network is outside the model. The database itself is
  taken to work: its calls do not throw.
\<close>

definition orEmpty :: "'a list option \<Rightarrow> 'a list" where
  "orEmpty v = (case v of None \<Rightarrow> [] | Some xs \<Rightarrow> xs)"

text \<open>The \<open>try\<close> block with its \<open>catch\<close>.\<close>

definition syncAttempt :: "env \<Rightarrow> state \<Rightarrow> state" where
  "syncAttempt e s =
     (let localTasks = getAllTasks (db_tasks s);
          s1 = emit GetData s
      in case getData e of
           GetThrows msg \<Rightarrow> log (SyncFailed msg) LogError s1
         | GetNothing \<Rightarrow> log RemoteReadFailed LogError s1
         | GetDoc remoteData \<Rightarrow>
             (let mergedData = mergeData localTasks (orEmpty (doc_tasks remoteData));
                  devices = snd (updateDevicesList s1 (tzShift e) (clock e 1) (clock e 2)
                                   (orEmpty (doc_devices remoteData)));
                  dataToSave = \<lparr>doc_tasks = Some mergedData,
                                 doc_lastSync = IsoString (clock e 3),
                                 doc_devices = Some devices,
                                 doc_version = ''1.0''\<rparr>;
                  s2 = emit (SaveData dataToSave) s1
              in case saveData e dataToSave of
                   SaveThrows msg \<Rightarrow> log (SyncFailed msg) LogError s2
                 | SaveResult success err \<Rightarrow>
                     if success
                     then (let s3 = s2\<lparr>db_tasks := syncTasks mergedData (db_tasks s2)\<rparr>;
                               s4 = s3\<lparr>lastSync := IsoString (clock e 4),
                                       stored_lastSync := IsoString (clock e 4)\<rparr>;
                               s5 = emit UpdateLastSyncDisplay s4;
                               s6 = log SyncCompleted LogSuccess s5
                           in emit ShowNotification s6)
                     else log (SaveFailed err) LogError s2))"

definition syncWithGitHub :: "env \<Rightarrow> state \<Rightarrow> state" where
  "syncWithGitHub e s =
     (if \<not> isConfigured e \<or> isSyncing s \<or> \<not> isOnline s then s
      else (let s1 = emit (UpdateSyncStatus StatusSyncing) (s\<lparr>isSyncing := True\<rparr>);
                s2 = syncAttempt e s1;
                s3 = s2\<lparr>isSyncing := False\<rparr>
            in emit (UpdateSyncStatus (if isOnline s3 then StatusOnline else StatusOffline)) s3))"

definition manualSync :: "env \<Rightarrow> state \<Rightarrow> state" where
  "manualSync e s =
     (if isSyncing s then log AlreadySyncing LogWarning s
      else syncWithGitHub e (log ManualSyncStarted LogInfo s))"

section \<open>Auxiliary notions for the statements\<close>

text \<open>The last element of a list that satisfies \<open>p\<close>.\<close>

fun lastWith :: "('a \<Rightarrow> bool) \<Rightarrow> 'a list \<Rightarrow> 'a option" where
  "lastWith p [] = None"
| "lastWith p (x # xs) =
     (case lastWith p xs of Some y \<Rightarrow> Some y | None \<Rightarrow> if p x then Some x else None)"

text \<open>The key of the final sort on valid dates: the time value, negated (newest first).\<close>

definition negTime :: "task \<Rightarrow> int" where
  "negTime t = (case newDateOf (updatedAt t) of None \<Rightarrow> 0 | Some v \<Rightarrow> - v)"

text \<open>
  What the spec's words for the merge of an empty local set say: of the records that share
  an id, the one seen first is kept.
\<close>

definition dedupFirstSeen :: "task list \<Rightarrow> task list" where
  "dedupFirstSeen ts =
     foldl (\<lambda>acc t. if task_id t \<in> task_id ` set acc then acc else acc @ [t]) [] ts"

text \<open>The documents handed to \<open>saveData\<close>, in the order of the calls.\<close>

definition savedDocs :: "event list \<Rightarrow> remote_doc list" where
  "savedDocs tr = concat (map (\<lambda>ev. case ev of SaveData d \<Rightarrow> [d] | _ \<Rightarrow> []) tr)"

text \<open>Concrete inputs for the examples: a task, a device, a manager and its surroundings.\<close>

definition mkTask :: "int \<Rightarrow> string \<Rightarrow> jsstamp \<Rightarrow> task" where
  "mkTask i ttl stamp =
     \<lparr>task_id = i, title = ttl, description = [], priority = ''medium'',
      category = ''general'', deadline = Null, completed = False, deleted = None,
      createdAt = IsoString 0, updatedAt = stamp, synced = False,
      task_deviceId = ''device-1-abcd''\<rparr>"

definition mkDevice :: "string \<Rightarrow> int \<Rightarrow> device" where
  "mkDevice i seen = \<lparr>device_id = i, device_name = ''Mi-Lin-ab12'', lastSeen = IsoString seen,
                       online = True\<rparr>"

definition mkState :: "bool \<Rightarrow> task list \<Rightarrow> state" where
  "mkState syncing table =
     \<lparr>isOnline = True, isSyncing = syncing, lastSync = Null, deviceId = ''device-1-abcd'',
      autoSync = True, stored_lastSync = Null, stored_deviceName = None,
      db_tasks = table, trace = []\<rparr>"

definition mkEnv :: "get_outcome \<Rightarrow> save_outcome \<Rightarrow> env" where
  "mkEnv got saved =
     \<lparr>isConfigured = True, getData = got, saveData = (\<lambda>doc. saved),
      clock = (\<lambda>n. 1000000000000 + int n), tzShift = 0\<rparr>"

definition mkDoc :: "task list \<Rightarrow> remote_doc" where
  "mkDoc ts = \<lparr>doc_tasks = Some ts, doc_lastSync = IsoString 999999999999,
                doc_devices = Some [], doc_version = ''1.0''\<rparr>"

section \<open>Properties of \<open>Map\<close>, \<open>Set\<close> and the sort\<close>

lemma map_of_map_set: "map_of (map_set k v m) = (map_of m)(k \<mapsto> v)"
  by (induction m) (auto simp: fun_eq_iff)

lemma keys_map_set:
  "map fst (map_set k v m) = (if k \<in> fst ` set m then map fst m else map fst m @ [k])"
  by (induction m) auto

lemma distinct_map_set: "distinct (map fst m) \<Longrightarrow> distinct (map fst (map_set k v m))"
  by (simp add: keys_map_set)

lemma lastWith_filter:
  "lastWith p xs = (if filter p xs = [] then None else Some (last (filter p xs)))"
  by (induction xs) auto

lemma foldl_map_set_get:
  "map_of (foldl (\<lambda>m e. map_set (fst e) (snd e) m) m0 es) k =
     (case lastWith (\<lambda>e. fst e = k) es of None \<Rightarrow> map_of m0 k | Some e \<Rightarrow> Some (snd e))"
  by (induction es arbitrary: m0) (auto simp: map_of_map_set split: option.splits)

lemma keys_set_map_set: "fst ` set (map_set k v m) = insert k (fst ` set m)"
  by (induction m) auto

lemma foldl_map_set_keys_set:
  "fst ` set (foldl (\<lambda>m e. map_set (fst e) (snd e) m) m0 es) = fst ` set m0 \<union> fst ` set es"
  by (induction es arbitrary: m0) (simp_all add: keys_set_map_set)

lemma foldl_map_set_distinct:
  "distinct (map fst m0) \<Longrightarrow> distinct (map fst (foldl (\<lambda>m e. map_set (fst e) (snd e) m) m0 es))"
  by (induction es arbitrary: m0) (auto simp: distinct_map_set)

lemma foldl_map_set_id:
  "distinct (map fst (m0 @ es)) \<Longrightarrow> foldl (\<lambda>m e. map_set (fst e) (snd e) m) m0 es = m0 @ es"
proof (induction es arbitrary: m0)
  case Nil then show ?case by simp
next
  case (Cons e es)
  have "map_set (fst e) (snd e) m0 = m0 @ [e]" using Cons.prems
    by (induction m0) auto
  then show ?case using Cons.IH[of "m0 @ [e]"] Cons.prems by simp
qed

lemma set_add_foldl_set: "set (foldl (\<lambda>s x. set_add x s) s0 xs) = set s0 \<union> set xs"
  by (induction xs arbitrary: s0) (auto simp: set_add_def)

lemma set_add_foldl_distinct: "distinct s0 \<Longrightarrow> distinct (foldl (\<lambda>s x. set_add x s) s0 xs)"
  by (induction xs arbitrary: s0) (auto simp: set_add_def)

lemma set_add_foldl_absorb: "set xs \<subseteq> set s0 \<Longrightarrow> foldl (\<lambda>s x. set_add x s) s0 xs = s0"
  by (induction xs arbitrary: s0) (auto simp: set_add_def)

lemma set_add_foldl_fresh:
  "distinct (s0 @ xs) \<Longrightarrow> foldl (\<lambda>s x. set_add x s) s0 xs = s0 @ xs"
proof (induction xs arbitrary: s0)
  case Nil then show ?case by simp
next
  case (Cons x xs)
  then show ?case using Cons.IH[of "s0 @ [x]"] by (auto simp: set_add_def)
qed

lemma mset_sort_insert: "mset (sort_insert c x xs) = add_mset x (mset xs)"
  by (induction xs) auto

lemma mset_js_sort: "mset (js_sort c xs) = mset xs"
  by (induction xs) (auto simp: mset_sort_insert)

lemma successively_sort_insert:
  assumes "\<And>a b. \<not> cmpValue c a b \<le> 0 \<Longrightarrow> cmpValue c b a \<le> 0"
    and "successively (\<lambda>a b. cmpValue c a b \<le> 0) xs"
  shows "successively (\<lambda>a b. cmpValue c a b \<le> 0) (sort_insert c x xs)"
  using assms(2)
proof (induction xs)
  case Nil then show ?case by simp
next
  case (Cons y ys)
  then show ?case using assms(1)[of x y]
    by (cases ys) (auto simp: successively_Cons)
qed

lemma successively_js_sort:
  assumes "\<And>a b. \<not> cmpValue c a b \<le> 0 \<Longrightarrow> cmpValue c b a \<le> 0"
  shows "successively (\<lambda>a b. cmpValue c a b \<le> 0) (js_sort c xs)"
  by (induction xs) (auto intro: successively_sort_insert assms)

lemma js_sort_fixpoint:
  "successively (\<lambda>a b. cmpValue c a b \<le> 0) xs \<Longrightarrow> js_sort c xs = xs"
proof (induction xs)
  case Nil then show ?case by simp
next
  case (Cons x xs)
  then show ?case by (cases xs) (auto simp: successively_Cons)
qed

lemma mset_engineOrder: "mset (engineOrder xs) = mset xs"
  unfolding engineOrder_def by (rule someI[where x = xs]) simp

lemma mset_sortByUpdatedAt: "mset (sortByUpdatedAt ts) = mset ts"
  by (simp add: sortByUpdatedAt_def mset_js_sort mset_engineOrder)

lemma byUpdatedAtDesc_total:
  "\<not> cmpValue byUpdatedAtDesc a b \<le> 0 \<Longrightarrow> cmpValue byUpdatedAtDesc b a \<le> 0"
  by (cases "newDateOf (updatedAt a)"; cases "newDateOf (updatedAt b)")
     (auto simp: cmpValue_def byUpdatedAtDesc_def)

section \<open>Properties of the merge\<close>

lemma lastWith_Some: "lastWith p xs = Some x \<Longrightarrow> p x \<and> x \<in> set xs"
  by (induction xs) (auto split: option.splits if_splits)

lemma lastWith_None: "lastWith p xs = None \<longleftrightarrow> (\<forall>x \<in> set xs. \<not> p x)"
  by (induction xs) (auto split: option.splits)

lemma lastWith_map:
  "lastWith p (map f xs) = map_option f (lastWith (\<lambda>x. p (f x)) xs)"
  by (induction xs) (auto split: option.splits)

lemma newMap_get:
  "map_get (newMap (taskEntries ts)) i = lastWith (\<lambda>t. task_id t = i) ts"
  by (simp add: map_get_def newMap_def taskEntries_def foldl_map_set_get lastWith_map
      split: option.splits)

lemma newMap_keys_set: "set (map_keys (newMap (taskEntries ts))) = task_id ` set ts"
  by (simp add: map_keys_def newMap_def taskEntries_def foldl_map_set_keys_set image_image)

lemma newMap_keys_distinct: "distinct (map_keys (newMap es))"
  by (simp add: map_keys_def newMap_def foldl_map_set_distinct)

lemma newMap_distinct_id:
  "distinct (map task_id ts) \<Longrightarrow> newMap (taskEntries ts) = taskEntries ts"
  using foldl_map_set_id[of "[]" "taskEntries ts"]
  by (simp add: newMap_def taskEntries_def comp_def)

lemma newSet_set: "set (newSet xs) = set xs"
  by (simp add: newSet_def set_add_foldl_set)

lemma newSet_distinct: "distinct (newSet xs)"
  by (simp add: newSet_def set_add_foldl_distinct)

lemma newSet_twice: "distinct xs \<Longrightarrow> newSet (xs @ xs) = xs"
  using set_add_foldl_fresh[of "[]" xs] set_add_foldl_absorb[of xs xs]
  by (simp add: newSet_def)

lemma newSet_distinct_id: "distinct xs \<Longrightarrow> newSet xs = xs"
  using set_add_foldl_fresh[of "[]" xs] by (simp add: newSet_def)

lemma resolveConflict_cases: "resolveConflict l r = l \<or> resolveConflict l r = r"
  by (simp add: resolveConflict_def Let_def)

lemma resolveConflict_same: "resolveConflict t t = t"
  by (simp add: resolveConflict_def Let_def)

lemma mergeOne_single:
  assumes "i \<in> task_id ` set ls \<union> task_id ` set rs"
  shows "\<exists>t. mergeOne (newMap (taskEntries ls)) (newMap (taskEntries rs)) i = [t] \<and> task_id t = i"
proof -
  let ?l = "lastWith (\<lambda>t. task_id t = i) ls" and ?r = "lastWith (\<lambda>t. task_id t = i) rs"
  have some: "?l \<noteq> None \<or> ?r \<noteq> None" using assms by (auto simp: lastWith_None)
  have idl: "task_id t = i" if "?l = Some t" for t using that lastWith_Some by fastforce
  have idr: "task_id t = i" if "?r = Some t" for t using that lastWith_Some by fastforce
  show ?thesis
  proof (cases ?l)
    case None
    then obtain r where r: "?r = Some r" using some by auto
    show ?thesis using None r idr[OF r] by (simp add: mergeOne_def newMap_get)
  next
    case (Some l)
    show ?thesis
    proof (cases ?r)
      case None
      then show ?thesis using Some idl[OF Some] by (simp add: mergeOne_def newMap_get)
    next
      case (Some r)
      have "task_id (resolveConflict l r) = i"
        using resolveConflict_cases[of l r] idl[OF \<open>?l = Some l\<close>] idr[OF Some] by auto
      then show ?thesis using Some \<open>?l = Some l\<close> by (simp add: mergeOne_def newMap_get)
    qed
  qed
qed

lemma concat_mergeOne_ids:
  assumes "set ids \<subseteq> task_id ` set ls \<union> task_id ` set rs"
  shows "map task_id (concat (map (mergeOne (newMap (taskEntries ls)) (newMap (taskEntries rs))) ids)) = ids"
  using assms
proof (induction ids)
  case Nil then show ?case by simp
next
  case (Cons i ids)
  obtain t where "mergeOne (newMap (taskEntries ls)) (newMap (taskEntries rs)) i = [t]" "task_id t = i"
    using mergeOne_single[of i ls rs] Cons.prems by auto
  then show ?case using Cons by simp
qed

lemma allIds_set:
  "set (newSet (map_keys (newMap (taskEntries ls)) @ map_keys (newMap (taskEntries rs))))
     = task_id ` set ls \<union> task_id ` set rs"
  by (simp add: newSet_set newMap_keys_set)

lemma mergeData_ids_mset:
  "mset (map task_id (mergeData ls rs)) =
     mset (newSet (map_keys (newMap (taskEntries ls)) @ map_keys (newMap (taskEntries rs))))"
proof -
  let ?ids = "newSet (map_keys (newMap (taskEntries ls)) @ map_keys (newMap (taskEntries rs)))"
  let ?pre = "concat (map (mergeOne (newMap (taskEntries ls)) (newMap (taskEntries rs))) ?ids)"
  have "mset (map task_id (mergeData ls rs)) = mset (map task_id ?pre)"
    by (simp add: mergeData_def Let_def mset_sortByUpdatedAt)
  also have "map task_id ?pre = ?ids"
    by (rule concat_mergeOne_ids) (simp add: allIds_set)
  finally show ?thesis .
qed

lemma mergeData_ids_distinct: "distinct (map task_id (mergeData ls rs))"
  using mergeData_ids_mset[of ls rs] newSet_distinct mset_eq_imp_distinct_iff by blast

lemma mergeData_ids_set: "task_id ` set (mergeData ls rs) = task_id ` set ls \<union> task_id ` set rs"
proof -
  have "set (map task_id (mergeData ls rs)) = task_id ` set ls \<union> task_id ` set rs"
    using mergeData_ids_mset[of ls rs] allIds_set[of ls rs] mset_eq_setD by metis
  then show ?thesis by simp
qed

lemma mergeData_self:
  assumes "distinct (map task_id m)"
  shows "mergeData m m = sortByUpdatedAt m"
proof -
  have keys: "map_keys (taskEntries m) = map task_id m"
    by (simp add: map_keys_def taskEntries_def comp_def)
  have get: "map_get (taskEntries m) (task_id t) = Some t" if "t \<in> set m" for t
    using that assms by (simp add: map_get_def taskEntries_def comp_def)
  have one: "mergeOne (taskEntries m) (taskEntries m) (task_id t) = [t]" if "t \<in> set m" for t
    by (simp add: mergeOne_def get[OF that] resolveConflict_same)
  have "concat (map (mergeOne (taskEntries m) (taskEntries m)) (map task_id m)) = concat (map (\<lambda>t. [t]) m)"
    unfolding map_map comp_def
    by (rule arg_cong[where f = concat], rule map_cong) (simp_all add: one)
  then have "concat (map (mergeOne (taskEntries m) (taskEntries m)) (map task_id m)) = m"
    by simp
  then show ?thesis
    by (simp add: mergeData_def Let_def newMap_distinct_id[OF assms] keys newSet_twice[OF assms])
qed

lemma set_js_sort: "set (js_sort c xs) = set xs"
  using mset_js_sort[of c xs] by (rule mset_eq_setD)

lemma sortByUpdatedAt_valid:
  assumes "list_all validDate ts"
  shows "sortByUpdatedAt ts = js_sort byUpdatedAtDesc ts"
    and "successively (\<lambda>x y. cmpValue byUpdatedAtDesc x y \<le> 0) (sortByUpdatedAt ts)"
    and "list_all validDate (sortByUpdatedAt ts)"
proof -
  show eq: "sortByUpdatedAt ts = js_sort byUpdatedAtDesc ts"
    using assms by (simp add: sortByUpdatedAt_def)
  show "successively (\<lambda>x y. cmpValue byUpdatedAtDesc x y \<le> 0) (sortByUpdatedAt ts)"
    unfolding eq by (rule successively_js_sort) (rule byUpdatedAtDesc_total)
  show "list_all validDate (sortByUpdatedAt ts)"
    using assms unfolding eq by (simp add: list_all_iff set_js_sort)
qed

lemma sortByUpdatedAt_fixpoint:
  assumes "list_all validDate ts"
  shows "sortByUpdatedAt (sortByUpdatedAt ts) = sortByUpdatedAt ts"
proof -
  have "sortByUpdatedAt (sortByUpdatedAt ts) = js_sort byUpdatedAtDesc (sortByUpdatedAt ts)"
    by (rule sortByUpdatedAt_valid(1)) (rule sortByUpdatedAt_valid(3)[OF assms])
  also have "\<dots> = sortByUpdatedAt ts"
    by (rule js_sort_fixpoint) (rule sortByUpdatedAt_valid(2)[OF assms])
  finally show ?thesis .
qed

text \<open>
  On valid dates the order of the model is the one the language prescribes: the stable
  sort by time value, newest first. It is the only list with the three properties of
  such a sort.
\<close>

lemma sort_insert_insort_key:
  assumes "validDate x" and "list_all validDate ys"
  shows "sort_insert byUpdatedAtDesc x ys = insort_key negTime x ys"
  using assms(2)
proof (induction ys)
  case Nil
  then show ?case by simp
next
  case (Cons y ys)
  obtain tx ty where "newDateOf (updatedAt x) = Some tx" "newDateOf (updatedAt y) = Some ty"
    using assms(1) Cons.prems by (auto simp: validDate_def)
  then have "cmpValue byUpdatedAtDesc x y \<le> 0 \<longleftrightarrow> negTime x \<le> negTime y"
    by (simp add: cmpValue_def byUpdatedAtDesc_def negTime_def)
  then show ?case using Cons by simp
qed

lemma js_sort_sort_key:
  assumes "list_all validDate ts"
  shows "js_sort byUpdatedAtDesc ts = sort_key negTime ts"
  using assms
proof (induction ts)
  case Nil
  then show ?case by simp
next
  case (Cons t ts)
  then have "list_all validDate (sort_key negTime ts)"
    by (simp add: list_all_iff)
  then show ?case using Cons
    by (simp add: sort_insert_insort_key)
qed

lemma stable_sort_unique:
  assumes "list_all validDate ts"
    and "mset ys = mset ts"
    and "sorted (map negTime ys)"
    and "\<And>k. k \<in> set ys \<Longrightarrow>
           filter (\<lambda>x. negTime k = negTime x) ys = filter (\<lambda>x. negTime k = negTime x) ts"
  shows "sortByUpdatedAt ts = ys"
proof -
  have "sort_key negTime ts = ys"
    using assms(2) assms(4) assms(3) by (rule properties_for_sort_key)
  then show ?thesis
    using assms(1) by (simp add: sortByUpdatedAt_valid(1) js_sort_sort_key)
qed

lemma mergeData_set:
  "set (mergeData ls rs) =
     (\<Union>i \<in> task_id ` set ls \<union> task_id ` set rs.
        set (mergeOne (newMap (taskEntries ls)) (newMap (taskEntries rs)) i))"
proof -
  let ?ids = "newSet (map_keys (newMap (taskEntries ls)) @ map_keys (newMap (taskEntries rs)))"
  let ?pre = "concat (map (mergeOne (newMap (taskEntries ls)) (newMap (taskEntries rs))) ?ids)"
  have "mset (mergeData ls rs) = mset ?pre"
    by (simp add: mergeData_def Let_def mset_sortByUpdatedAt)
  then have "set (mergeData ls rs) = set ?pre" by (rule mset_eq_setD)
  also have "\<dots> = (\<Union>i \<in> set ?ids. set (mergeOne (newMap (taskEntries ls)) (newMap (taskEntries rs)) i))"
    by simp
  finally show ?thesis by (simp only: allIds_set)
qed

lemma mergeOne_subset:
  "set (mergeOne (newMap (taskEntries ls)) (newMap (taskEntries rs)) i) \<subseteq> set ls \<union> set rs"
proof -
  have "t \<in> set ls" if "lastWith (\<lambda>t. task_id t = i) ls = Some t" for t
    using lastWith_Some[OF that] by simp
  moreover have "t \<in> set rs" if "lastWith (\<lambda>t. task_id t = i) rs = Some t" for t
    using lastWith_Some[OF that] by simp
  ultimately show ?thesis
    using resolveConflict_cases
    by (auto simp: mergeOne_def newMap_get split: option.splits) metis
qed

lemma mergeData_subset: "set (mergeData ls rs) \<subseteq> set ls \<union> set rs"
  unfolding mergeData_set using mergeOne_subset by blast

lemma mergeData_valid:
  assumes "\<forall>t \<in> set ls \<union> set rs. validDate t"
  shows "list_all validDate (mergeData ls rs)"
    and "sortByUpdatedAt (mergeData ls rs) = mergeData ls rs"
proof -
  let ?ids = "newSet (map_keys (newMap (taskEntries ls)) @ map_keys (newMap (taskEntries rs)))"
  let ?pre = "concat (map (mergeOne (newMap (taskEntries ls)) (newMap (taskEntries rs))) ?ids)"
  have m: "mergeData ls rs = sortByUpdatedAt ?pre"
    by (simp add: mergeData_def Let_def)
  have "set ?pre \<subseteq> set ls \<union> set rs"
    using mergeOne_subset[of ls rs] by auto
  then have pre: "list_all validDate ?pre"
    using assms by (auto simp: list_all_iff)
  show "list_all validDate (mergeData ls rs)"
    unfolding m by (rule sortByUpdatedAt_valid(3)[OF pre])
  show "sortByUpdatedAt (mergeData ls rs) = mergeData ls rs"
    unfolding m by (rule sortByUpdatedAt_fixpoint[OF pre])
qed

lemma mergeData_shared_id:
  assumes "lastWith (\<lambda>t. task_id t = i) ls = Some l"
    and "lastWith (\<lambda>t. task_id t = i) rs = Some r"
  shows "resolveConflict l r \<in> set (mergeData ls rs)"
proof -
  have "i \<in> task_id ` set ls \<union> task_id ` set rs"
    using lastWith_Some[OF assms(1)] by auto
  moreover have "mergeOne (newMap (taskEntries ls)) (newMap (taskEntries rs)) i
      = [resolveConflict l r]"
    using assms by (simp add: mergeOne_def newMap_get)
  ultimately show ?thesis unfolding mergeData_set by force
qed

lemma mergeData_empty_local_last:
  assumes "t \<in> set (mergeData [] rs)"
  shows "t = last (filter (\<lambda>r. task_id r = task_id t) rs) \<and> t \<in> set rs"
proof -
  have empty: "map_get (newMap (taskEntries [])) i = None" for i
    by (simp add: newMap_get)
  obtain i where "t \<in> set (mergeOne (newMap (taskEntries [])) (newMap (taskEntries rs)) i)"
    using assms unfolding mergeData_set by blast
  then have l: "lastWith (\<lambda>r. task_id r = i) rs = Some t"
    by (auto simp: mergeOne_def empty newMap_get split: option.splits)
  then have "task_id t = i" "t \<in> set rs" using lastWith_Some by fastforce+
  with l show ?thesis by (simp add: lastWith_filter split: if_splits)
qed

section \<open>Properties of the device registry and of the cycle\<close>

lemma findIndex_None: "findIndex p xs = None \<longleftrightarrow> (\<forall>x \<in> set xs. \<not> p x)"
  by (induction xs) (auto split: option.splits)

lemma findIndex_Some:
  "findIndex p xs = Some i \<Longrightarrow> i < length xs \<and> p (xs ! i) \<and> (\<forall>j < i. \<not> p (xs ! j))"
proof (induction xs arbitrary: i)
  case Nil then show ?case by simp
next
  case (Cons x xs)
  show ?case
  proof (cases "p x")
    case True then show ?thesis using Cons.prems by simp
  next
    case False
    then obtain k where k: "findIndex p xs = Some k" "i = Suc k"
      using Cons.prems by (auto split: option.splits)
    from Cons.IH[OF k(1)] False k(2) show ?thesis
      by (auto simp: less_Suc_eq_0_disj)
  qed
qed

lemma upsert_keeps_others:
  assumes "d \<in> set existing" and "device_id d \<noteq> deviceId s"
  shows "d \<in> set (fst (updateDevicesList s tz nowSeen nowPrune existing))"
proof (cases "findIndex (\<lambda>d. device_id d = deviceId s) existing")
  case None
  then show ?thesis using assms by (simp add: updateDevicesList_def Let_def)
next
  case (Some i)
  from findIndex_Some[OF Some] have i: "i < length existing" "device_id (existing ! i) = deviceId s"
    by auto
  obtain j where j: "j < length existing" "existing ! j = d"
    using assms(1) by (auto simp: in_set_conv_nth)
  then have "j \<noteq> i" using i assms(2) by auto
  then have "existing[i := x] ! j = d" for x using j by simp
  then show ?thesis using Some j(1)
    by (auto simp: updateDevicesList_def Let_def in_set_conv_nth)
qed

lemma upsert_has_self:
  "\<lparr>device_id = deviceId s, device_name = getDeviceName s, lastSeen = IsoString nowSeen,
     online = isOnline s\<rparr> \<in> set (fst (updateDevicesList s tz nowSeen nowPrune existing))"
proof (cases "findIndex (\<lambda>d. device_id d = deviceId s) existing")
  case None
  then show ?thesis by (simp add: updateDevicesList_def Let_def)
next
  case (Some i)
  from findIndex_Some[OF Some] have "i < length existing" by simp
  then show ?thesis using Some
    by (simp add: updateDevicesList_def Let_def set_update_memI)
qed

lemma upsert_result:
  "snd (updateDevicesList s tz nowSeen nowPrune existing) =
     filter (\<lambda>d. dateGt (newDateOf (lastSeen d)) (Some (nowPrune - 7 * dayMs + tz)))
       (fst (updateDevicesList s tz nowSeen nowPrune existing))"
  by (simp add: updateDevicesList_def Let_def)

lemma syncAttempt_local:
  assumes "db_tasks (syncAttempt e s) \<noteq> db_tasks s \<or> lastSync (syncAttempt e s) \<noteq> lastSync s
           \<or> stored_lastSync (syncAttempt e s) \<noteq> stored_lastSync s"
  shows "\<exists>remoteData doc err. getData e = GetDoc remoteData \<and> saveData e doc = SaveResult True err \<and>
           SaveData doc \<in> set (trace (syncAttempt e s))"
  using assms
  by (auto simp: syncAttempt_def Let_def log_def emit_def
           split: get_outcome.splits save_outcome.splits if_splits)

lemma dateGt_Some: "dateGt x (Some c) \<longleftrightarrow> (\<exists>t. x = Some t \<and> c < t)"
  by (cases x) simp_all

lemma syncWithGitHub_local:
  assumes "db_tasks (syncWithGitHub e s) \<noteq> db_tasks s \<or> lastSync (syncWithGitHub e s) \<noteq> lastSync s
           \<or> stored_lastSync (syncWithGitHub e s) \<noteq> stored_lastSync s"
  shows "\<exists>remoteData doc err. getData e = GetDoc remoteData \<and> saveData e doc = SaveResult True err \<and>
           SaveData doc \<in> set (trace (syncWithGitHub e s))"
proof (cases "\<not> isConfigured e \<or> isSyncing s \<or> \<not> isOnline s")
  case True
  then show ?thesis using assms by (simp add: syncWithGitHub_def)
next
  case False
  let ?s1 = "emit (UpdateSyncStatus StatusSyncing) (s\<lparr>isSyncing := True\<rparr>)"
  have eq: "db_tasks (syncWithGitHub e s) = db_tasks (syncAttempt e ?s1)"
       "lastSync (syncWithGitHub e s) = lastSync (syncAttempt e ?s1)"
       "stored_lastSync (syncWithGitHub e s) = stored_lastSync (syncAttempt e ?s1)"
       "trace (syncWithGitHub e s) = trace (syncAttempt e ?s1) @
          [UpdateSyncStatus (if isOnline (syncAttempt e ?s1) then StatusOnline else StatusOffline)]"
    using False by (simp_all add: syncWithGitHub_def Let_def emit_def)
  have s1: "db_tasks ?s1 = db_tasks s" "lastSync ?s1 = lastSync s" "stored_lastSync ?s1 = stored_lastSync s"
    by (simp_all add: emit_def)
  have "db_tasks (syncAttempt e ?s1) \<noteq> db_tasks ?s1 \<or> lastSync (syncAttempt e ?s1) \<noteq> lastSync ?s1
           \<or> stored_lastSync (syncAttempt e ?s1) \<noteq> stored_lastSync ?s1"
    using assms unfolding eq s1 .
  from syncAttempt_local[OF this] show ?thesis unfolding eq(4) by auto
qed

section \<open>The claims\<close>

subsection \<open>Conflict resolution\<close>

text \<open>
  C1. For a local and a remote record whose \<open>updatedAt\<close> are dates, \<open>resolveConflict\<close>
  returns the record with the strictly later \<open>updatedAt\<close>, and the local record when
  the two are the same instant. (The function does not look at the ids, so the
  statement holds in particular for two records that share an id.)
\<close>

theorem resolveConflict_newer_wins:
  assumes "updatedAt localTask = IsoString a" and "updatedAt remoteTask = IsoString b"
  shows "(b < a \<longrightarrow> resolveConflict localTask remoteTask = localTask) \<and>
         (a < b \<longrightarrow> resolveConflict localTask remoteTask = remoteTask) \<and>
         (a = b \<longrightarrow> resolveConflict localTask remoteTask = localTask)"
  using assms by (simp add: resolveConflict_def newDateOr0_def Let_def)

theorem resolveConflict_newer_wins_witness:
  "resolveConflict (mkTask 1 ''A'' (IsoString 5)) (mkTask 1 ''B'' (IsoString 6))
     = mkTask 1 ''B'' (IsoString 6) \<and>
   resolveConflict (mkTask 1 ''B'' (IsoString 6)) (mkTask 1 ''A'' (IsoString 5))
     = mkTask 1 ''B'' (IsoString 6) \<and>
   resolveConflict (mkTask 1 ''A'' (IsoString 5)) (mkTask 1 ''C'' (IsoString 5))
     = mkTask 1 ''A'' (IsoString 5)"
  using resolveConflict_newer_wins[of "mkTask 1 ''A'' (IsoString 5)" 5 "mkTask 1 ''B'' (IsoString 6)" 6]
        resolveConflict_newer_wins[of "mkTask 1 ''B'' (IsoString 6)" 6 "mkTask 1 ''A'' (IsoString 5)" 5]
        resolveConflict_newer_wins[of "mkTask 1 ''A'' (IsoString 5)" 5 "mkTask 1 ''C'' (IsoString 5)" 5]
  by (simp add: mkTask_def)

text \<open>
  C10. A record whose \<open>updatedAt\<close> is missing or \<open>null\<close> is compared as if it carried
  the epoch: against a record dated after the epoch it loses, on either side, and when
  both records lack \<open>updatedAt\<close> the local one is returned.
\<close>

theorem resolveConflict_missing_updatedAt:
  assumes "updatedAt missing = Undefined \<or> updatedAt missing = Null"
  shows "newDateOr0 (updatedAt missing) = Some 0 \<and>
         (updatedAt dated = IsoString t \<and> 0 < t \<longrightarrow>
            resolveConflict missing dated = dated \<and> resolveConflict dated missing = dated) \<and>
         (updatedAt other = Undefined \<or> updatedAt other = Null \<longrightarrow>
            resolveConflict missing other = missing)"
  using assms by (auto simp: resolveConflict_def newDateOr0_def Let_def)

theorem resolveConflict_missing_updatedAt_witness:
  "resolveConflict (mkTask 1 ''A'' Undefined) (mkTask 1 ''B'' (IsoString 1)) = mkTask 1 ''B'' (IsoString 1) \<and>
   resolveConflict (mkTask 1 ''B'' (IsoString 1)) (mkTask 1 ''A'' Undefined) = mkTask 1 ''B'' (IsoString 1) \<and>
   resolveConflict (mkTask 1 ''A'' Undefined) (mkTask 1 ''C'' Null) = mkTask 1 ''A'' Undefined"
  using resolveConflict_missing_updatedAt[of "mkTask 1 ''A'' Undefined"
          "mkTask 1 ''B'' (IsoString 1)" 1 "mkTask 1 ''C'' Null"]
  by (simp add: mkTask_def)

subsection \<open>The merge\<close>

text \<open>
  C5. Union completeness: the ids of the merged list are exactly the ids of the two
  inputs, and no id occurs twice in the merged list.
\<close>

theorem mergeData_union_complete:
  "task_id ` set (mergeData localTasks remoteTasks)
     = task_id ` set localTasks \<union> task_id ` set remoteTasks \<and>
   distinct (map task_id (mergeData localTasks remoteTasks))"
  by (simp add: mergeData_ids_set mergeData_ids_distinct)

theorem mergeData_union_complete_witness:
  "task_id ` set (mergeData [mkTask 1 ''A'' (IsoString 5), mkTask 2 ''B'' (IsoString 7)]
                            [mkTask 1 ''A2'' (IsoString 6), mkTask 3 ''C'' Undefined]) = {1, 2, 3} \<and>
   distinct (map task_id (mergeData [mkTask 1 ''A'' (IsoString 5), mkTask 2 ''B'' (IsoString 7)]
                            [mkTask 1 ''A2'' (IsoString 6), mkTask 3 ''C'' Undefined]))"
  using mergeData_union_complete[of "[mkTask 1 ''A'' (IsoString 5), mkTask 2 ''B'' (IsoString 7)]"
          "[mkTask 1 ''A2'' (IsoString 6), mkTask 3 ''C'' Undefined]"]
  by (auto simp: mkTask_def)

text \<open>
  C4. The merge is idempotent on task lists whose \<open>updatedAt\<close> are valid dates: merging
  the merged list with itself gives the merged list again, the same records in the same
  order. (With a missing or unparsable \<open>updatedAt\<close> the order of the merged list is the
  engine's, and nothing is said.)
\<close>

theorem mergeData_idempotent:
  assumes "\<forall>t \<in> set a \<union> set b. validDate t"
  shows "mergeData (mergeData a b) (mergeData a b) = mergeData a b"
proof -
  have "mergeData (mergeData a b) (mergeData a b) = sortByUpdatedAt (mergeData a b)"
    by (rule mergeData_self) (rule mergeData_ids_distinct)
  also have "\<dots> = mergeData a b"
    using assms by (rule mergeData_valid(2))
  finally show ?thesis .
qed

theorem mergeData_idempotent_witness:
  "list_all validDate
     [mkTask 1 ''A'' (IsoString 5), mkTask 2 ''B'' (IsoString 7), mkTask 4 ''D'' (IsoString 7)] \<and>
   list_all validDate [mkTask 1 ''A2'' (IsoString 6), mkTask 3 ''C'' Null] \<and>
   mergeData [mkTask 1 ''A'' (IsoString 5), mkTask 2 ''B'' (IsoString 7), mkTask 4 ''D'' (IsoString 7)]
             [mkTask 1 ''A2'' (IsoString 6), mkTask 3 ''C'' Null]
     = [mkTask 2 ''B'' (IsoString 7), mkTask 4 ''D'' (IsoString 7), mkTask 1 ''A2'' (IsoString 6),
        mkTask 3 ''C'' Null] \<and>
   mergeData (mergeData [mkTask 1 ''A'' (IsoString 5), mkTask 2 ''B'' (IsoString 7), mkTask 4 ''D'' (IsoString 7)]
                        [mkTask 1 ''A2'' (IsoString 6), mkTask 3 ''C'' Null])
             (mergeData [mkTask 1 ''A'' (IsoString 5), mkTask 2 ''B'' (IsoString 7), mkTask 4 ''D'' (IsoString 7)]
                        [mkTask 1 ''A2'' (IsoString 6), mkTask 3 ''C'' Null])
     = [mkTask 2 ''B'' (IsoString 7), mkTask 4 ''D'' (IsoString 7), mkTask 1 ''A2'' (IsoString 6),
        mkTask 3 ''C'' Null]"
proof -
  let ?a = "[mkTask 1 ''A'' (IsoString 5), mkTask 2 ''B'' (IsoString 7), mkTask 4 ''D'' (IsoString 7)]"
  let ?b = "[mkTask 1 ''A2'' (IsoString 6), mkTask 3 ''C'' Null]"
  have valid: "\<forall>t \<in> set ?a \<union> set ?b. validDate t"
    by (simp add: validDate_def mkTask_def)
  have m: "mergeData ?a ?b = [mkTask 2 ''B'' (IsoString 7), mkTask 4 ''D'' (IsoString 7),
      mkTask 1 ''A2'' (IsoString 6), mkTask 3 ''C'' Null]"
    by code_simp
  have "list_all validDate ?a" "list_all validDate ?b"
    using valid by (simp_all add: list_all_iff)
  with mergeData_idempotent[OF valid] m show ?thesis by simp
qed

text \<open>
  C7, as the code has it. With an empty local list the merged list holds exactly one
  record for each id of the remote list, and that record is the last record of the
  remote list with the id.
\<close>

theorem mergeData_empty_local:
  "task_id ` set (mergeData [] remoteTasks) = task_id ` set remoteTasks \<and>
   distinct (map task_id (mergeData [] remoteTasks)) \<and>
   (\<forall>t \<in> set (mergeData [] remoteTasks).
      t = last (filter (\<lambda>r. task_id r = task_id t) remoteTasks))"
  using mergeData_ids_set[of "[]" remoteTasks] mergeData_ids_distinct[of "[]" remoteTasks]
    mergeData_empty_local_last[of _ remoteTasks]
  by simp

theorem mergeData_empty_local_witness:
  "mergeData [] [mkTask 1 ''A'' (IsoString 5), mkTask 2 ''C'' (IsoString 9), mkTask 1 ''B'' (IsoString 7)]
     = [mkTask 2 ''C'' (IsoString 9), mkTask 1 ''B'' (IsoString 7)] \<and>
   mkTask 1 ''B'' (IsoString 7) =
     last (filter (\<lambda>r. task_id r = 1)
       [mkTask 1 ''A'' (IsoString 5), mkTask 2 ''C'' (IsoString 9), mkTask 1 ''B'' (IsoString 7)])"
proof -
  let ?rs = "[mkTask 1 ''A'' (IsoString 5), mkTask 2 ''C'' (IsoString 9), mkTask 1 ''B'' (IsoString 7)]"
  have m: "mergeData [] ?rs = [mkTask 2 ''C'' (IsoString 9), mkTask 1 ''B'' (IsoString 7)]"
    by code_simp
  have "\<forall>t \<in> set (mergeData [] ?rs). t = last (filter (\<lambda>r. task_id r = task_id t) ?rs)"
    using mergeData_empty_local[of ?rs] by blast
  then have "mkTask 1 ''B'' (IsoString 7) =
      last (filter (\<lambda>r. task_id r = task_id (mkTask 1 ''B'' (IsoString 7))) ?rs)"
    unfolding m by simp
  then show ?thesis using m by (simp add: mkTask_def)
qed

text \<open>
  C7, as the spec words it, fails: of two remote records with the same id the merge keeps
  the second, not the one seen first.
\<close>

theorem mergeData_first_seen_counterexample:
  "mergeData [] [mkTask 1 ''A'' (IsoString 5), mkTask 1 ''B'' (IsoString 5)]
     \<noteq> dedupFirstSeen [mkTask 1 ''A'' (IsoString 5), mkTask 1 ''B'' (IsoString 5)]"
  by code_simp

subsection \<open>The device registry\<close>

text \<open>
  C8. Let the offset of the local time zone change by less than a day within the last
  seven calendar days, and let the two readings of the clock be less than a day apart.
  Then no record of the returned list has a \<open>lastSeen\<close> of exactly eight days before
  the reading \<open>now\<close> taken for the pruning; and a device of the given list whose
  \<open>lastSeen\<close> is exactly six days before \<open>now\<close> is in the returned list: its record
  itself when it is another device, its fresh record when it is the syncing device.
\<close>

theorem updateDevicesList_prunes:
  assumes tz: "\<bar>tz\<bar> < dayMs" and clk: "now - nowSeen < dayMs"
  shows "(\<forall>d \<in> set (snd (updateDevicesList s tz nowSeen now existing)).
            lastSeen d \<noteq> IsoString (now - 8 * dayMs)) \<and>
         (\<forall>d \<in> set existing. lastSeen d = IsoString (now - 6 * dayMs) \<longrightarrow>
            device_id d \<in> device_id ` set (snd (updateDevicesList s tz nowSeen now existing)) \<and>
            (device_id d \<noteq> deviceId s \<longrightarrow>
               d \<in> set (snd (updateDevicesList s tz nowSeen now existing))))"
proof (intro conjI ballI impI)
  fix d assume "d \<in> set (snd (updateDevicesList s tz nowSeen now existing))"
  then have "dateGt (newDateOf (lastSeen d)) (Some (now - 7 * dayMs + tz))"
    by (simp add: upsert_result)
  then show "lastSeen d \<noteq> IsoString (now - 8 * dayMs)"
    using tz by (auto simp: dayMs_def)
next
  fix d assume d: "d \<in> set existing" "lastSeen d = IsoString (now - 6 * dayMs)"
  have other: "d \<in> set (snd (updateDevicesList s tz nowSeen now existing))"
    if "device_id d \<noteq> deviceId s"
    using upsert_keeps_others[OF d(1) that, of tz nowSeen now] d(2) tz
    by (simp add: upsert_result dayMs_def)
  show "device_id d \<in> device_id ` set (snd (updateDevicesList s tz nowSeen now existing))"
  proof (cases "device_id d = deviceId s")
    case False
    then show ?thesis using other by blast
  next
    case True
    let ?info = "\<lparr>device_id = deviceId s, device_name = getDeviceName s,
                   lastSeen = IsoString nowSeen, online = isOnline s\<rparr>"
    have "?info \<in> set (snd (updateDevicesList s tz nowSeen now existing))"
      using upsert_has_self[of s nowSeen tz now existing] tz clk
      by (simp add: upsert_result dayMs_def)
    then have "device_id ?info
        \<in> device_id ` set (snd (updateDevicesList s tz nowSeen now existing))"
      by (rule imageI)
    then show ?thesis using True by simp
  qed
  show "d \<in> set (snd (updateDevicesList s tz nowSeen now existing))"
    if "device_id d \<noteq> deviceId s" using other that .
qed

theorem updateDevicesList_prunes_witness:
  "\<bar>0::int\<bar> < dayMs \<and> (1000000000001::int) - 1000000000000 < dayMs \<and>
   mkDevice ''device-2-old'' (1000000000001 - 8 * dayMs)
     \<notin> set (snd (updateDevicesList (mkState False []) 0 1000000000000 1000000000001
          [mkDevice ''device-2-old'' (1000000000001 - 8 * dayMs),
           mkDevice ''device-3-new'' (1000000000001 - 6 * dayMs)])) \<and>
   mkDevice ''device-3-new'' (1000000000001 - 6 * dayMs)
     \<in> set (snd (updateDevicesList (mkState False []) 0 1000000000000 1000000000001
          [mkDevice ''device-2-old'' (1000000000001 - 8 * dayMs),
           mkDevice ''device-3-new'' (1000000000001 - 6 * dayMs)]))"
proof -
  have h: "\<bar>0::int\<bar> < dayMs" "(1000000000001::int) - 1000000000000 < dayMs"
    by (simp_all add: dayMs_def)
  note w = updateDevicesList_prunes[OF h, of "mkState False []"
      "[mkDevice ''device-2-old'' (1000000000001 - 8 * dayMs),
        mkDevice ''device-3-new'' (1000000000001 - 6 * dayMs)]"]
  have old: "lastSeen (mkDevice ''device-2-old'' (1000000000001 - 8 * dayMs))
      = IsoString (1000000000001 - 8 * dayMs)"
    by (simp add: mkDevice_def)
  have new: "lastSeen (mkDevice ''device-3-new'' (1000000000001 - 6 * dayMs))
      = IsoString (1000000000001 - 6 * dayMs)"
    "device_id (mkDevice ''device-3-new'' (1000000000001 - 6 * dayMs)) \<noteq> deviceId (mkState False [])"
    by (simp_all add: mkDevice_def mkState_def)
  from w old have "mkDevice ''device-2-old'' (1000000000001 - 8 * dayMs)
     \<notin> set (snd (updateDevicesList (mkState False []) 0 1000000000000 1000000000001
          [mkDevice ''device-2-old'' (1000000000001 - 8 * dayMs),
           mkDevice ''device-3-new'' (1000000000001 - 6 * dayMs)]))"
    by blast
  moreover from w new have "mkDevice ''device-3-new'' (1000000000001 - 6 * dayMs)
     \<in> set (snd (updateDevicesList (mkState False []) 0 1000000000000 1000000000001
          [mkDevice ''device-2-old'' (1000000000001 - 8 * dayMs),
           mkDevice ''device-3-new'' (1000000000001 - 6 * dayMs)]))"
    by simp
  ultimately show ?thesis using h by simp
qed

text \<open>
  C6, as the code has it. \<open>updateDevicesList\<close> writes into the list it is given: when
  no entry has the id of the syncing device, the fresh entry of the device is appended
  to the list; otherwise it replaces the first entry with that id; every other entry
  stays. The returned list is a new one: the entries of the list so changed whose
  \<open>lastSeen\<close> is a date after \<open>sevenDaysAgo\<close>. The fresh entry carries the reading of
  the clock, the stored device name and the online flag of the manager.
\<close>

theorem updateDevicesList_mutates_argument:
  "(deviceId s \<notin> device_id ` set existing \<longrightarrow>
      fst (updateDevicesList s tz nowSeen nowPrune existing) =
        existing @ [\<lparr>device_id = deviceId s, device_name = getDeviceName s,
                      lastSeen = IsoString nowSeen, online = isOnline s\<rparr>]) \<and>
   (deviceId s \<in> device_id ` set existing \<longrightarrow>
      (\<exists>i < length existing.
          device_id (existing ! i) = deviceId s \<and>
          (\<forall>j < i. device_id (existing ! j) \<noteq> deviceId s) \<and>
          fst (updateDevicesList s tz nowSeen nowPrune existing) =
            existing[i := \<lparr>device_id = deviceId s, device_name = getDeviceName s,
                           lastSeen = IsoString nowSeen, online = isOnline s\<rparr>])) \<and>
   snd (updateDevicesList s tz nowSeen nowPrune existing) =
     filter (\<lambda>d. \<exists>t. newDateOf (lastSeen d) = Some t \<and> nowPrune - 7 * dayMs + tz < t)
       (fst (updateDevicesList s tz nowSeen nowPrune existing))"
proof (cases "findIndex (\<lambda>d. device_id d = deviceId s) existing")
  case None
  then have "deviceId s \<notin> device_id ` set existing"
    by (auto simp: findIndex_None)
  then show ?thesis using None
    by (simp add: upsert_result dateGt_Some) (simp add: updateDevicesList_def Let_def)
next
  case (Some i)
  from findIndex_Some[OF Some]
  have i: "i < length existing" "device_id (existing ! i) = deviceId s"
    "\<forall>j < i. device_id (existing ! j) \<noteq> deviceId s" by auto
  have "fst (updateDevicesList s tz nowSeen nowPrune existing) =
      existing[i := \<lparr>device_id = deviceId s, device_name = getDeviceName s,
                     lastSeen = IsoString nowSeen, online = isOnline s\<rparr>]"
    using Some by (simp add: updateDevicesList_def Let_def)
  moreover have "deviceId s \<in> device_id ` set existing"
    using i(1,2) by (metis imageI nth_mem)
  ultimately show ?thesis using i
    by (simp add: upsert_result dateGt_Some) blast
qed

theorem updateDevicesList_mutates_argument_witness:
  "deviceId (mkState False []) \<notin> device_id ` set [mkDevice ''device-2-wxyz'' 900] \<and>
   fst (updateDevicesList (mkState False []) 0 1000 1000 [mkDevice ''device-2-wxyz'' 900]) =
     [mkDevice ''device-2-wxyz'' 900,
      \<lparr>device_id = ''device-1-abcd'', device_name = ''Dispositivo-abcd'',
       lastSeen = IsoString 1000, online = True\<rparr>] \<and>
   deviceId (mkState False []) \<in> device_id ` set [mkDevice ''device-1-abcd'' 900] \<and>
   fst (updateDevicesList (mkState False []) 0 1000 1000 [mkDevice ''device-1-abcd'' 900]) =
     [\<lparr>device_id = ''device-1-abcd'', device_name = ''Dispositivo-abcd'',
       lastSeen = IsoString 1000, online = True\<rparr>]"
  using updateDevicesList_mutates_argument[of "mkState False []" "[mkDevice ''device-2-wxyz'' 900]" 0 1000 1000]
        updateDevicesList_mutates_argument[of "mkState False []" "[mkDevice ''device-1-abcd'' 900]" 0 1000 1000]
  by (simp add: mkState_def mkDevice_def getDeviceName_def substr_last_def)

text \<open>
  C6, as the spec words it, fails: the call leaves the list it was given changed, and
  with the same list a later reading of the clock gives another result.
\<close>

theorem updateDevicesList_pure_counterexample:
  "fst (updateDevicesList (mkState False []) 0 1000 1000 [mkDevice ''device-1-abcd'' 900])
     \<noteq> [mkDevice ''device-1-abcd'' 900] \<and>
   snd (updateDevicesList (mkState False []) 0 1000 1000 [mkDevice ''device-1-abcd'' 900])
     \<noteq> snd (updateDevicesList (mkState False []) 0 2000 2000 [mkDevice ''device-1-abcd'' 900])"
  by code_simp

subsection \<open>The sync cycle\<close>

text \<open>
  C2 fails on the code. \<open>getAllTasks\<close> drops every task with \<open>deleted = true\<close>, so a
  tombstone of the local store is not in the list handed to \<open>mergeData\<close>: with a local
  tombstone for task 5 that is newer than the remote record of task 5, the cycle writes
  the remote record back, although the merge of the tombstone with the remote record
  is the tombstone.
\<close>

theorem sync_cycle_drops_tombstone:
  "getAllTasks [(mkTask 5 ''X'' (IsoString 100))\<lparr>deleted := Some True\<rparr>] = [] \<and>
   map doc_tasks (savedDocs (trace (syncWithGitHub
       (mkEnv (GetDoc (mkDoc [mkTask 5 ''X'' (IsoString 50)])) (SaveResult True []))
       (mkState False [(mkTask 5 ''X'' (IsoString 100))\<lparr>deleted := Some True\<rparr>]))))
     = [Some [mkTask 5 ''X'' (IsoString 50)]] \<and>
   mergeData [(mkTask 5 ''X'' (IsoString 100))\<lparr>deleted := Some True\<rparr>] [mkTask 5 ''X'' (IsoString 50)]
     = [(mkTask 5 ''X'' (IsoString 100))\<lparr>deleted := Some True\<rparr>]"
  by code_simp

theorem sync_cycle_drops_tombstone_witness:
  "isConfigured (mkEnv (GetDoc (mkDoc [mkTask 5 ''X'' (IsoString 50)])) (SaveResult True [])) \<and>
   \<not> isSyncing (mkState False [(mkTask 5 ''X'' (IsoString 100))\<lparr>deleted := Some True\<rparr>]) \<and>
   isOnline (mkState False [(mkTask 5 ''X'' (IsoString 100))\<lparr>deleted := Some True\<rparr>]) \<and>
   length (savedDocs (trace (syncWithGitHub
       (mkEnv (GetDoc (mkDoc [mkTask 5 ''X'' (IsoString 50)])) (SaveResult True []))
       (mkState False [(mkTask 5 ''X'' (IsoString 100))\<lparr>deleted := Some True\<rparr>])))) = 1"
proof -
  let ?docs = "savedDocs (trace (syncWithGitHub
       (mkEnv (GetDoc (mkDoc [mkTask 5 ''X'' (IsoString 50)])) (SaveResult True []))
       (mkState False [(mkTask 5 ''X'' (IsoString 100))\<lparr>deleted := Some True\<rparr>])))"
  from sync_cycle_drops_tombstone
  have "map doc_tasks ?docs = [Some [mkTask 5 ''X'' (IsoString 50)]]" by blast
  then have "length (map doc_tasks ?docs) = length [Some [mkTask 5 ''X'' (IsoString 50)]]"
    by (rule arg_cong)
  then have "length ?docs = 1" by simp
  then show ?thesis by (simp add: mkEnv_def mkState_def)
qed

text \<open>
  C3. The cycle changes the task table, \<open>this.lastSync\<close> or the stored \<open>lastSync\<close>
  only when the remote read gave a document and \<open>saveData\<close> was called with a document
  for which it reported success. In particular, when the remote read gives nothing, or
  when every write reports \<open>success: false\<close>, the three are as they were before the
  cycle (the task records with their \<open>synced\<close> flags included).
\<close>

theorem sync_local_state_after_confirmed_write:
  "(db_tasks (syncWithGitHub e s) \<noteq> db_tasks s \<or> lastSync (syncWithGitHub e s) \<noteq> lastSync s \<or>
    stored_lastSync (syncWithGitHub e s) \<noteq> stored_lastSync s
    \<longrightarrow> (\<exists>remoteData doc err. getData e = GetDoc remoteData \<and>
           saveData e doc = SaveResult True err \<and> SaveData doc \<in> set (trace (syncWithGitHub e s)))) \<and>
   (getData e = GetNothing \<or> (\<forall>doc. \<exists>err. saveData e doc = SaveResult False err)
    \<longrightarrow> db_tasks (syncWithGitHub e s) = db_tasks s \<and> lastSync (syncWithGitHub e s) = lastSync s \<and>
        stored_lastSync (syncWithGitHub e s) = stored_lastSync s)"
proof (rule conjI; rule impI)
  assume "db_tasks (syncWithGitHub e s) \<noteq> db_tasks s \<or> lastSync (syncWithGitHub e s) \<noteq> lastSync s \<or>
    stored_lastSync (syncWithGitHub e s) \<noteq> stored_lastSync s"
  then show "\<exists>remoteData doc err. getData e = GetDoc remoteData \<and>
           saveData e doc = SaveResult True err \<and> SaveData doc \<in> set (trace (syncWithGitHub e s))"
    by (rule syncWithGitHub_local)
next
  assume fail: "getData e = GetNothing \<or> (\<forall>doc. \<exists>err. saveData e doc = SaveResult False err)"
  have "\<not> (db_tasks (syncWithGitHub e s) \<noteq> db_tasks s \<or> lastSync (syncWithGitHub e s) \<noteq> lastSync s
           \<or> stored_lastSync (syncWithGitHub e s) \<noteq> stored_lastSync s)"
  proof
    assume "db_tasks (syncWithGitHub e s) \<noteq> db_tasks s \<or> lastSync (syncWithGitHub e s) \<noteq> lastSync s
           \<or> stored_lastSync (syncWithGitHub e s) \<noteq> stored_lastSync s"
    from syncWithGitHub_local[OF this] obtain remoteData doc err where
      ok: "getData e = GetDoc remoteData" "saveData e doc = SaveResult True err" by blast
    from fail show False
    proof
      assume "getData e = GetNothing"
      with ok(1) show False by simp
    next
      assume "\<forall>doc. \<exists>err. saveData e doc = SaveResult False err"
      then obtain err' where "saveData e doc = SaveResult False err'" by blast
      with ok(2) show False by simp
    qed
  qed
  then show "db_tasks (syncWithGitHub e s) = db_tasks s \<and> lastSync (syncWithGitHub e s) = lastSync s \<and>
        stored_lastSync (syncWithGitHub e s) = stored_lastSync s" by blast
qed

theorem sync_local_state_after_confirmed_write_witness:
  "db_tasks (syncWithGitHub (mkEnv GetNothing (SaveResult True [])) (mkState False [mkTask 1 ''A'' (IsoString 5)]))
     = [mkTask 1 ''A'' (IsoString 5)] \<and>
   db_tasks (syncWithGitHub (mkEnv (GetDoc (mkDoc [mkTask 2 ''B'' (IsoString 6)])) (SaveResult False ''conflict''))
               (mkState False [mkTask 1 ''A'' (IsoString 5)]))
     = [mkTask 1 ''A'' (IsoString 5)] \<and>
   db_tasks (syncWithGitHub (mkEnv (GetDoc (mkDoc [mkTask 2 ''B'' (IsoString 6)])) (SaveResult True []))
               (mkState False [mkTask 1 ''A'' (IsoString 5)]))
     \<noteq> [mkTask 1 ''A'' (IsoString 5)] \<and>
   (\<exists>doc err. saveData (mkEnv (GetDoc (mkDoc [mkTask 2 ''B'' (IsoString 6)])) (SaveResult True [])) doc
        = SaveResult True err \<and>
      SaveData doc \<in> set (trace (syncWithGitHub
        (mkEnv (GetDoc (mkDoc [mkTask 2 ''B'' (IsoString 6)])) (SaveResult True []))
        (mkState False [mkTask 1 ''A'' (IsoString 5)]))))"
proof -
  let ?s = "mkState False [mkTask 1 ''A'' (IsoString 5)]"
  let ?e1 = "mkEnv GetNothing (SaveResult True [])"
  let ?e2 = "mkEnv (GetDoc (mkDoc [mkTask 2 ''B'' (IsoString 6)])) (SaveResult False ''conflict'')"
  let ?e3 = "mkEnv (GetDoc (mkDoc [mkTask 2 ''B'' (IsoString 6)])) (SaveResult True [])"
  have db: "db_tasks ?s = [mkTask 1 ''A'' (IsoString 5)]" by (simp add: mkState_def)
  have h1: "getData ?e1 = GetNothing" by (simp add: mkEnv_def)
  have h2: "\<forall>doc. \<exists>err. saveData ?e2 doc = SaveResult False err" by (simp add: mkEnv_def)
  have h3: "db_tasks (syncWithGitHub ?e3 ?s) \<noteq> db_tasks ?s" by code_simp
  from sync_local_state_after_confirmed_write[of ?e1 ?s] h1
  have c1: "db_tasks (syncWithGitHub ?e1 ?s) = db_tasks ?s" by blast
  from sync_local_state_after_confirmed_write[of ?e2 ?s] h2
  have c2: "db_tasks (syncWithGitHub ?e2 ?s) = db_tasks ?s" by blast
  from sync_local_state_after_confirmed_write[of ?e3 ?s] h3
  have c3: "\<exists>doc err. saveData ?e3 doc = SaveResult True err \<and>
      SaveData doc \<in> set (trace (syncWithGitHub ?e3 ?s))" by blast
  from c1 c2 c3 h3 show ?thesis unfolding db by blast
qed

text \<open>
  C9. A manual sync that finds \<open>isSyncing\<close> set returns the state it found, with one
  entry added to the trace: the warning. So it reads and writes nothing of the remote
  store and changes nothing locally.
\<close>

theorem manualSync_while_syncing:
  assumes "isSyncing s"
  shows "manualSync e s = s\<lparr>trace := trace s @ [Log AlreadySyncing LogWarning]\<rparr>"
  using assms by (simp add: manualSync_def log_def emit_def)

theorem manualSync_while_syncing_witness:
  "isSyncing (mkState True [mkTask 1 ''A'' (IsoString 5)]) \<and>
   manualSync (mkEnv (GetDoc (mkDoc [])) (SaveResult True [])) (mkState True [mkTask 1 ''A'' (IsoString 5)])
     = (mkState True [mkTask 1 ''A'' (IsoString 5)])\<lparr>trace := [Log AlreadySyncing LogWarning]\<rparr>"
  using manualSync_while_syncing[of "mkState True [mkTask 1 ''A'' (IsoString 5)]"
          "mkEnv (GetDoc (mkDoc [])) (SaveResult True [])"]
  by (simp add: mkState_def)

end
